theory Spec2Isabelle
  imports Complex_Main
begin

section \<open>popover-lite: placement selection and the reactive controller\<close>

text \<open>
  The repository holds two generations of the library: v0.2.0 (first fit with fallbacks,
  \<open>findBestPlacement\<close>) and v0.1.2 (scoring, \<open>computeScores\<close> and \<open>computeBest\<close>).
  JavaScript numbers are modelled as \<open>real\<close>: every geometry value is taken to be finite
  and arithmetic to be exact. The DOM is not part of the repository; what the code reads
  from it (the anchor's bounding box, the window's inner size, the panel's offset size) is
  an explicit argument of each function.
\<close>

subsection \<open>Data model\<close>

datatype Placement = Top | Bottom | Left | Right

text \<open>What \<open>getBoundingClientRect()\<close> returns: the six fields the code reads.\<close>

record DOMRect =
  rect_top :: real
  rect_bottom :: real
  rect_left :: real
  rect_right :: real
  rect_width :: real
  rect_height :: real

text \<open>The bounding box of an element at \<open>(left, top)\<close> with a given width and height.\<close>

definition boundingRect :: "real \<Rightarrow> real \<Rightarrow> real \<Rightarrow> real \<Rightarrow> DOMRect" where
  "boundingRect t l w h =
     \<lparr>rect_top = t, rect_bottom = t + h, rect_left = l, rect_right = l + w,
      rect_width = w, rect_height = h\<rparr>"

record Window =
  innerWidth :: real
  innerHeight :: real

record HTMLElement =
  boundingClientRect :: DOMRect
  offsetWidth :: real
  offsetHeight :: real

record Size =
  width :: real
  height :: real

datatype error = TypeError

subsection \<open>v0.2.0: simple placement logic\<close>

fun getAvailableSpace :: "Window \<Rightarrow> HTMLElement \<Rightarrow> Placement \<Rightarrow> real" where
  "getAvailableSpace win anchor Top = rect_top (boundingClientRect anchor)"
| "getAvailableSpace win anchor Bottom = innerHeight win - rect_bottom (boundingClientRect anchor)"
| "getAvailableSpace win anchor Left = rect_left (boundingClientRect anchor)"
| "getAvailableSpace win anchor Right = innerWidth win - rect_right (boundingClientRect anchor)"

text \<open>The \<open>for (const fallback of fallbacks)\<close> loop; \<open>Some\<close> is its early return.\<close>

fun tryFallbacks :: "Window \<Rightarrow> HTMLElement \<Rightarrow> Size \<Rightarrow> Placement list \<Rightarrow> Placement option" where
  "tryFallbacks win anchor needed [] = None"
| "tryFallbacks win anchor needed (fallback # rest) =
     (let spc = getAvailableSpace win anchor fallback;
          required = (if fallback = Top \<or> fallback = Bottom then height needed else width needed)
      in if spc \<ge> required then Some fallback
         else tryFallbacks win anchor needed rest)"

text \<open>\<open>Array.prototype.reduce\<close> without an initial value: a TypeError on an empty array.\<close>

definition reduce :: "('a \<Rightarrow> 'a \<Rightarrow> 'a) \<Rightarrow> 'a list \<Rightarrow> error + 'a" where
  "reduce f xs = (case xs of [] \<Rightarrow> Inl TypeError | x # rest \<Rightarrow> Inr (foldl f x rest))"

definition findBestPlacement ::
  "Window \<Rightarrow> HTMLElement \<Rightarrow> HTMLElement \<Rightarrow> Placement \<Rightarrow> Placement list \<Rightarrow> error + Placement" where
  "findBestPlacement win anchor popover preferred fallbacks =
     (let needed = \<lparr>width = offsetWidth popover, height = offsetHeight popover\<rparr>;
          preferredSpace = getAvailableSpace win anchor preferred;
          requiredSpace = (if preferred = Top \<or> preferred = Bottom then height needed else width needed)
      in if preferredSpace \<ge> requiredSpace then Inr preferred
         else (case tryFallbacks win anchor needed fallbacks of
                 Some fallback \<Rightarrow> Inr fallback
               | None \<Rightarrow>
                   reduce (\<lambda>best current.
                       let bestSpace = getAvailableSpace win anchor best;
                           currentSpace = getAvailableSpace win anchor current
                       in if currentSpace > bestSpace then current else best)
                     (preferred # fallbacks)))"

subsection \<open>v0.2.0: the controller\<close>

record PopoverOptions =
  opt_placement :: "Placement option"
  opt_offset :: "real option"
  opt_fallbacks :: "Placement list option"

text \<open>
  The destructuring defaults of \<open>createPopover\<close>: \<open>placement = "bottom"\<close>, \<open>offset = 8\<close>,
  \<open>fallbacks = ["top", "right", "left"].filter(p => p !== placement)\<close>.
\<close>

definition defaultPlacement :: "PopoverOptions \<Rightarrow> Placement" where
  "defaultPlacement opts = (case opt_placement opts of None \<Rightarrow> Bottom | Some p \<Rightarrow> p)"

definition defaultOffset :: "PopoverOptions \<Rightarrow> real" where
  "defaultOffset opts = (case opt_offset opts of None \<Rightarrow> 8 | Some off \<Rightarrow> off)"

definition defaultFallbacks :: "PopoverOptions \<Rightarrow> Placement list" where
  "defaultFallbacks opts =
     (case opt_fallbacks opts of
        None \<Rightarrow> filter (\<lambda>p. p \<noteq> defaultPlacement opts) [Top, Right, Left]
      | Some fs \<Rightarrow> fs)"

text \<open>Nodes of the document, by identity.\<close>

datatype Element = AnchorEl | PopoverEl | Ancestor nat | DocumentElement

text \<open>
  \<open>getScrollParents\<close> walks the \<open>parentElement\<close> chain of the anchor. The chain is given
  nearest ancestor first, each with the result of the overflow test
  \<open>/auto|scroll|overlay/.test(...)\<close>; the loop ends where \<open>parentElement\<close> is null.
\<close>

fun scrollParentsLoop :: "(Element \<times> bool) list \<Rightarrow> Element list \<Rightarrow> Element list" where
  "scrollParentsLoop [] parents = parents"
| "scrollParentsLoop ((current, scrolls) # rest) parents =
     scrollParentsLoop rest (if scrolls then parents @ [current] else parents)"

definition getScrollParents :: "(Element \<times> bool) list \<Rightarrow> Element list" where
  "getScrollParents chain = scrollParentsLoop chain [] @ [DocumentElement]"

text \<open>
  The controller's closure and the part of the document it acts on. \<open>placementAttr\<close> is the
  panel's \<open>data-placement\<close> (and \<open>--placement\<close>), \<open>offsetVar\<close> its \<open>--offset\<close>, \<open>attached\<close>
  whether the panel is in the document. \<open>observed\<close> holds the targets of the controller's
  ResizeObserver and \<open>scrollListeners\<close> the elements on which \<open>update\<close> is registered as
  a scroll listener: the DOM keeps one registration per (target, type, callback), so both
  are sets. \<open>updateCalls\<close> counts the runs of \<open>update\<close>.
\<close>

record Controller =
  cfg_placement :: Placement
  cfg_fallbacks :: "Placement list"
  scrollParents :: "Element list"
  placementAttr :: Placement
  offsetVar :: real
  attached :: bool
  observed :: "Element set"
  scrollListeners :: "Element set"
  updateCalls :: nat

definition createPopover :: "(Element \<times> bool) list \<Rightarrow> PopoverOptions \<Rightarrow> Controller" where
  "createPopover chain opts =
     (let parents = getScrollParents chain
      in \<lparr>cfg_placement = defaultPlacement opts,
          cfg_fallbacks = defaultFallbacks opts,
          scrollParents = parents,
          placementAttr = defaultPlacement opts,
          offsetVar = defaultOffset opts,
          attached = True,
          observed = {AnchorEl, PopoverEl},
          scrollListeners = fold insert parents {},
          updateCalls = 0\<rparr>)"

definition update :: "Window \<Rightarrow> HTMLElement \<Rightarrow> HTMLElement \<Rightarrow> Controller \<Rightarrow> error + Controller" where
  "update win anchor popover c =
     (case findBestPlacement win anchor popover (cfg_placement c) (cfg_fallbacks c) of
        Inl e \<Rightarrow> Inl e
      | Inr best \<Rightarrow> Inr (c\<lparr>placementAttr := best, updateCalls := Suc (updateCalls c)\<rparr>))"

definition destroy :: "Controller \<Rightarrow> Controller" where
  "destroy c =
     c\<lparr>observed := {},
       scrollListeners := fold (\<lambda>parent ls. ls - {parent}) (scrollParents c) (scrollListeners c),
       attached := False\<rparr>"

text \<open>
  The signals of the document: a size change of an element is delivered to the
  ResizeObserver when the element is one of its targets, a scroll of an element to the
  listeners registered on it. Either delivery calls \<open>update\<close>.
\<close>

datatype Signal = SizeChange Element | Scroll Element

fun subscribed :: "Controller \<Rightarrow> Signal \<Rightarrow> bool" where
  "subscribed c (SizeChange el) = (el \<in> observed c)"
| "subscribed c (Scroll el) = (el \<in> scrollListeners c)"

definition deliver :: "Window \<Rightarrow> HTMLElement \<Rightarrow> HTMLElement \<Rightarrow> Signal \<Rightarrow> Controller \<Rightarrow> error + Controller" where
  "deliver win anchor popover sig c =
     (if subscribed c sig then update win anchor popover c else Inr c)"

text \<open>A run of signals, each with the geometry of its moment.\<close>

fun deliverAll :: "((Window \<times> HTMLElement \<times> HTMLElement) \<times> Signal) list \<Rightarrow> Controller \<Rightarrow> error + Controller" where
  "deliverAll [] c = Inr c"
| "deliverAll (((win, anchor, popover), sig) # rest) c =
     (case deliver win anchor popover sig c of
        Inl e \<Rightarrow> Inl e
      | Inr c' \<Rightarrow> deliverAll rest c')"

subsection \<open>v0.1.2: the placement scoring engine\<close>

record PlacementScore =
  placement :: Placement
  space :: real
  overflow :: real
  misalign :: real
  preference :: real
  score :: real

text \<open>\<open>prefs.top ?? 0\<close> on a \<open>Partial<Record<Placement, number>>\<close>.\<close>

definition prefOr0 :: "(Placement \<rightharpoonup> real) \<Rightarrow> Placement \<Rightarrow> real" where
  "prefOr0 prefs p = (case prefs p of None \<Rightarrow> 0 | Some v \<Rightarrow> v)"

text \<open>
  The candidate objects in the key order of the object literal, which is the order of
  \<open>Object.values\<close>.
\<close>

definition candidates :: "Window \<Rightarrow> HTMLElement \<Rightarrow> Size \<Rightarrow> (Placement \<rightharpoonup> real) \<Rightarrow> PlacementScore list" where
  "candidates win anchor sz prefs =
     (let r = boundingClientRect anchor;
          vw = innerWidth win;
          vh = innerHeight win
      in [\<lparr>placement = Top,
           space = rect_top r,
           overflow = max (height sz - rect_top r) 0,
           misalign = \<bar>rect_left r + rect_width r / 2 - (rect_left r + width sz / 2)\<bar>,
           preference = prefOr0 prefs Top,
           score = 0\<rparr>,
          \<lparr>placement = Bottom,
           space = vh - rect_bottom r,
           overflow = max (height sz - (vh - rect_bottom r)) 0,
           misalign = \<bar>rect_left r + rect_width r / 2 - (rect_left r + width sz / 2)\<bar>,
           preference = prefOr0 prefs Bottom,
           score = 0\<rparr>,
          \<lparr>placement = Left,
           space = rect_left r,
           overflow = max (width sz - rect_left r) 0,
           misalign = \<bar>rect_top r + rect_height r / 2 - (rect_top r + height sz / 2)\<bar>,
           preference = prefOr0 prefs Left,
           score = 0\<rparr>,
          \<lparr>placement = Right,
           space = vw - rect_right r,
           overflow = max (width sz - (vw - rect_right r)) 0,
           misalign = \<bar>rect_top r + rect_height r / 2 - (rect_top r + height sz / 2)\<bar>,
           preference = prefOr0 prefs Right,
           score = 0\<rparr>])"

text \<open>The body of \<open>for (const s of Object.values(candidates))\<close>.\<close>

definition setScore :: "PlacementScore \<Rightarrow> PlacementScore" where
  "setScore s = s\<lparr>score := space s - overflow s - misalign s + preference s\<rparr>"

text \<open>
  \<open>.sort((a, b) => b.score - a.score)\<close>: a stable sort by descending score, here the stable
  insertion sort of the library on the negated score.
\<close>

definition sortByScore :: "PlacementScore list \<Rightarrow> PlacementScore list" where
  "sortByScore xs = sort_key (\<lambda>s. - score s) xs"

definition computeScores :: "Window \<Rightarrow> HTMLElement \<Rightarrow> Size \<Rightarrow> (Placement \<rightharpoonup> real) \<Rightarrow> PlacementScore list" where
  "computeScores win anchor sz prefs = sortByScore (map setScore (candidates win anchor sz prefs))"

text \<open>
  \<open>const s = scores.find(x => x.placement === p); if (s) s.score += bonus\<close>: the first entry
  for \<open>p\<close> is changed in place, and nothing is when there is none.
\<close>

fun addBonus :: "Placement \<Rightarrow> real \<Rightarrow> PlacementScore list \<Rightarrow> PlacementScore list" where
  "addBonus p bonus [] = []"
| "addBonus p bonus (x # xs) =
     (if placement x = p then x\<lparr>score := score x + bonus\<rparr> # xs else x # addBonus p bonus xs)"

text \<open>\<open>for (let i = 0; i < order.length; i++)\<close> of \<open>computeBest\<close>.\<close>

function bonusLoop :: "Placement list \<Rightarrow> nat \<Rightarrow> PlacementScore list \<Rightarrow> PlacementScore list" where
  "bonusLoop order i scores =
     (if i < length order
      then (let bonus = real (length order - i) * 10000
            in bonusLoop order (i + 1) (addBonus (order ! i) bonus scores))
      else scores)"
  by pat_completeness auto
termination
  by (relation "measure (\<lambda>(order, i, scores). length order - i)") auto

declare bonusLoop.simps [simp del]

text \<open>The \<open>placement\<close> option of v0.1.2: one side or a priority list.\<close>

datatype PlacementOption = One Placement | Many "Placement list"

definition computeBest ::
  "Window \<Rightarrow> HTMLElement \<Rightarrow> HTMLElement \<Rightarrow> PlacementOption \<Rightarrow> (Placement \<rightharpoonup> real) \<Rightarrow> error + Placement" where
  "computeBest win anchor pop plc prefs =
     (let order = (case plc of Many ps \<Rightarrow> ps | One p \<Rightarrow> [p]);
          sz = \<lparr>width = offsetWidth pop, height = offsetHeight pop\<rparr>;
          scores = bonusLoop order 0 (computeScores win anchor sz prefs)
      in case scores of [] \<Rightarrow> Inl TypeError | s # _ \<Rightarrow> Inr (placement s))"

subsection \<open>Concrete elements\<close>

text \<open>An element with the given bounding box (top, left, width, height).\<close>

definition elementAt :: "real \<Rightarrow> real \<Rightarrow> real \<Rightarrow> real \<Rightarrow> HTMLElement" where
  "elementAt t l w h = \<lparr>boundingClientRect = boundingRect t l w h, offsetWidth = w, offsetHeight = h\<rparr>"

text \<open>A panel of the given offset size; its own position is never read.\<close>

definition panelOf :: "real \<Rightarrow> real \<Rightarrow> HTMLElement" where
  "panelOf w h = \<lparr>boundingClientRect = boundingRect 0 0 w h, offsetWidth = w, offsetHeight = h\<rparr>"

subsection \<open>Notions of the specification\<close>

text \<open>
  A side fits when its available space is at least the space it requires: the footprint's
  height for top and bottom, its width for left and right.
\<close>

definition fits :: "Window \<Rightarrow> HTMLElement \<Rightarrow> HTMLElement \<Rightarrow> Placement \<Rightarrow> bool" where
  "fits win anchor popover p =
     (getAvailableSpace win anchor p \<ge>
        (if p = Top \<or> p = Bottom then offsetHeight popover else offsetWidth popover))"

text \<open>The callback of the \<open>reduce\<close> in \<open>findBestPlacement\<close>, named.\<close>

definition moreSpace :: "Window \<Rightarrow> HTMLElement \<Rightarrow> Placement \<Rightarrow> Placement \<Rightarrow> Placement" where
  "moreSpace win anchor best current =
     (if getAvailableSpace win anchor current > getAvailableSpace win anchor best then current else best)"

text \<open>The score recorded for a side in a list of scores, if the side has an entry.\<close>

definition scoreOf :: "Placement \<Rightarrow> PlacementScore list \<Rightarrow> real option" where
  "scoreOf p scores = map_option score (find (\<lambda>x. placement x = p) scores)"

text \<open>The enumeration order of the sides: top, bottom, left, right.\<close>

fun enumIndex :: "Placement \<Rightarrow> nat" where
  "enumIndex Top = 0"
| "enumIndex Bottom = 1"
| "enumIndex Left = 2"
| "enumIndex Right = 3"

text \<open>
  The bonus a side collects from position \<open>i\<close> of the preference sequence on:
  \<open>(length - j) * 10000\<close> for every position \<open>j\<close> that names it.
\<close>

definition bonusSum :: "Placement list \<Rightarrow> nat \<Rightarrow> Placement \<Rightarrow> real" where
  "bonusSum order i p =
     (\<Sum>j = i..<length order. if order ! j = p then real (length order - j) * 10000 else 0)"

section \<open>Properties\<close>

subsection \<open>Geometry sampler\<close>

text \<open>
  Claim C6. The available space is the anchor's top offset for top, the viewport height
  minus the anchor's bottom offset for bottom, the anchor's left offset for left and the
  viewport width minus the anchor's right offset for right. The \<open>space\<close> fields of the
  v0.1.2 candidates are the same four quantities. Nothing is clamped: an anchor that
  spills past the bottom and the left edge has negative space there.
\<close>

theorem getAvailableSpace_sides:
  "getAvailableSpace win anchor Top = rect_top (boundingClientRect anchor)
   \<and> getAvailableSpace win anchor Bottom = innerHeight win - rect_bottom (boundingClientRect anchor)
   \<and> getAvailableSpace win anchor Left = rect_left (boundingClientRect anchor)
   \<and> getAvailableSpace win anchor Right = innerWidth win - rect_right (boundingClientRect anchor)
   \<and> map (\<lambda>s. (placement s, space s)) (candidates win anchor sz prefs)
       = map (\<lambda>p. (p, getAvailableSpace win anchor p)) [Top, Bottom, Left, Right]
   \<and> getAvailableSpace \<lparr>innerWidth = 800, innerHeight = 600\<rparr> (elementAt 590 (-30) 50 20) Bottom = -10
   \<and> getAvailableSpace \<lparr>innerWidth = 800, innerHeight = 600\<rparr> (elementAt 590 (-30) 50 20) Left = -30"
  by (simp add: candidates_def Let_def elementAt_def boundingRect_def)

subsection \<open>Policy A: first fit with fallbacks\<close>

lemma tryFallbacks_None:
  "(tryFallbacks win anchor \<lparr>width = offsetWidth popover, height = offsetHeight popover\<rparr> fs = None)
     = (\<forall>x\<in>set fs. \<not> fits win anchor popover x)"
  by (induction fs) (auto simp: fits_def Let_def)

lemma tryFallbacks_first:
  "\<forall>x\<in>set xs. \<not> fits win anchor popover x \<Longrightarrow> fits win anchor popover f \<Longrightarrow>
   tryFallbacks win anchor \<lparr>width = offsetWidth popover, height = offsetHeight popover\<rparr> (xs @ f # ys) = Some f"
  by (induction xs) (auto simp: fits_def Let_def)

lemma tryFallbacks_mem:
  "tryFallbacks win anchor needed fs = Some f \<Longrightarrow> f \<in> set fs"
  by (induction fs) (auto simp: Let_def split: if_splits)

text \<open>
  The fold keeps the earliest side of greatest space: no side has more, and every side
  before it has strictly less.
\<close>

lemma foldl_moreSpace:
  "\<exists>i<length (b # xs). foldl (moreSpace win anchor) b xs = (b # xs) ! i
     \<and> (\<forall>j<length (b # xs). getAvailableSpace win anchor ((b # xs) ! j) \<le> getAvailableSpace win anchor ((b # xs) ! i))
     \<and> (\<forall>j<i. getAvailableSpace win anchor ((b # xs) ! j) < getAvailableSpace win anchor ((b # xs) ! i))"
proof (induction xs rule: rev_induct)
  case Nil
  then show ?case by simp
next
  case (snoc x xs)
  let ?sp = "getAvailableSpace win anchor"
  let ?ys = "b # xs"
  from snoc obtain i where i: "i < length ?ys" "foldl (moreSpace win anchor) b xs = ?ys ! i"
    "\<forall>j<length ?ys. ?sp (?ys ! j) \<le> ?sp (?ys ! i)" "\<forall>j<i. ?sp (?ys ! j) < ?sp (?ys ! i)"
    by blast
  have nth_old: "\<And>j. j < length ?ys \<Longrightarrow> (b # xs @ [x]) ! j = ?ys ! j"
    by (metis append_Cons nth_append)
  have nth_new: "(b # xs @ [x]) ! length ?ys = x"
    by (metis append_Cons nth_append_length)
  show ?case
  proof (cases "?sp x > ?sp (?ys ! i)")
    case True
    have "foldl (moreSpace win anchor) b (xs @ [x]) = x"
      using True i(2) by (simp add: moreSpace_def)
    moreover have "\<forall>j<length (b # xs @ [x]). ?sp ((b # xs @ [x]) ! j) \<le> ?sp x"
    proof (intro allI impI)
      fix j assume "j < length (b # xs @ [x])"
      then consider "j < length ?ys" | "j = length ?ys" by force
      then show "?sp ((b # xs @ [x]) ! j) \<le> ?sp x"
      proof cases
        case 1
        then show ?thesis using i(3) True nth_old[OF 1] by force
      next
        case 2
        then show ?thesis using nth_new by simp
      qed
    qed
    moreover have "\<forall>j<length ?ys. ?sp ((b # xs @ [x]) ! j) < ?sp x"
      using i(3) True nth_old by force
    ultimately show ?thesis
      using nth_new by (intro exI[of _ "length ?ys"]) simp
  next
    case False
    have "foldl (moreSpace win anchor) b (xs @ [x]) = ?ys ! i"
      using False i(2) by (simp add: moreSpace_def)
    moreover have "\<forall>j<length (b # xs @ [x]). ?sp ((b # xs @ [x]) ! j) \<le> ?sp (?ys ! i)"
    proof (intro allI impI)
      fix j assume "j < length (b # xs @ [x])"
      then consider "j < length ?ys" | "j = length ?ys" by force
      then show "?sp ((b # xs @ [x]) ! j) \<le> ?sp (?ys ! i)"
      proof cases
        case 1
        then show ?thesis using i(3) nth_old[OF 1] by force
      next
        case 2
        then show ?thesis using nth_new False by simp
      qed
    qed
    moreover have "\<forall>j<i. ?sp ((b # xs @ [x]) ! j) < ?sp (?ys ! i)"
      using i(1,4) nth_old by force
    ultimately show ?thesis
      using i(1) nth_old[OF i(1)] by (intro exI[of _ i]) simp
  qed
qed

lemma foldl_moreSpace_mem: "foldl (moreSpace win anchor) b xs \<in> set (b # xs)"
  using foldl_moreSpace[of b xs win anchor] by (metis nth_mem)

lemma findBestPlacement_unfold:
  "findBestPlacement win anchor popover preferred fallbacks =
     (if fits win anchor popover preferred then Inr preferred
      else case tryFallbacks win anchor \<lparr>width = offsetWidth popover, height = offsetHeight popover\<rparr> fallbacks of
             Some f \<Rightarrow> Inr f
           | None \<Rightarrow> Inr (foldl (moreSpace win anchor) preferred fallbacks))"
proof -
  have "(\<lambda>best current.
           let bestSpace = getAvailableSpace win anchor best;
               currentSpace = getAvailableSpace win anchor current
           in if currentSpace > bestSpace then current else best) = moreSpace win anchor"
    by (intro ext) (simp add: moreSpace_def Let_def)
  then show ?thesis
    unfolding findBestPlacement_def
    by (simp add: fits_def reduce_def Let_def split: option.split)
qed

text \<open>
  Claim C2. The result is the preferred side if it fits; otherwise the first side of the
  fallback list that fits; otherwise, when no side fits, the side of the sequence
  preferred-then-fallbacks with the greatest available space, the earliest one among
  equals: no side of the sequence has more space and every side before it has strictly
  less.
\<close>

theorem findBestPlacement_policy:
  "(fits win anchor popover preferred \<longrightarrow>
      findBestPlacement win anchor popover preferred fallbacks = Inr preferred)
   \<and> (\<not> fits win anchor popover preferred \<and> fallbacks = xs @ f # ys
        \<and> (\<forall>x\<in>set xs. \<not> fits win anchor popover x) \<and> fits win anchor popover f \<longrightarrow>
      findBestPlacement win anchor popover preferred fallbacks = Inr f)
   \<and> (\<not> fits win anchor popover preferred \<and> (\<forall>x\<in>set fallbacks. \<not> fits win anchor popover x) \<longrightarrow>
      (\<exists>i<length (preferred # fallbacks).
          findBestPlacement win anchor popover preferred fallbacks = Inr ((preferred # fallbacks) ! i)
          \<and> (\<forall>j<length (preferred # fallbacks).
                getAvailableSpace win anchor ((preferred # fallbacks) ! j)
                  \<le> getAvailableSpace win anchor ((preferred # fallbacks) ! i))
          \<and> (\<forall>j<i. getAvailableSpace win anchor ((preferred # fallbacks) ! j)
                  < getAvailableSpace win anchor ((preferred # fallbacks) ! i))))"
proof (intro conjI impI)
  assume "fits win anchor popover preferred"
  then show "findBestPlacement win anchor popover preferred fallbacks = Inr preferred"
    by (simp add: findBestPlacement_unfold)
next
  assume a: "\<not> fits win anchor popover preferred \<and> fallbacks = xs @ f # ys
        \<and> (\<forall>x\<in>set xs. \<not> fits win anchor popover x) \<and> fits win anchor popover f"
  then show "findBestPlacement win anchor popover preferred fallbacks = Inr f"
    by (simp add: findBestPlacement_unfold tryFallbacks_first)
next
  assume a: "\<not> fits win anchor popover preferred \<and> (\<forall>x\<in>set fallbacks. \<not> fits win anchor popover x)"
  then have "tryFallbacks win anchor \<lparr>width = offsetWidth popover, height = offsetHeight popover\<rparr> fallbacks = None"
    by (simp add: tryFallbacks_None)
  with a have "findBestPlacement win anchor popover preferred fallbacks
      = Inr (foldl (moreSpace win anchor) preferred fallbacks)"
    by (simp add: findBestPlacement_unfold)
  then show "\<exists>i<length (preferred # fallbacks).
          findBestPlacement win anchor popover preferred fallbacks = Inr ((preferred # fallbacks) ! i)
          \<and> (\<forall>j<length (preferred # fallbacks).
                getAvailableSpace win anchor ((preferred # fallbacks) ! j)
                  \<le> getAvailableSpace win anchor ((preferred # fallbacks) ! i))
          \<and> (\<forall>j<i. getAvailableSpace win anchor ((preferred # fallbacks) ! j)
                  < getAvailableSpace win anchor ((preferred # fallbacks) ! i))"
    using foldl_moreSpace[of preferred fallbacks win anchor] by simp
qed

theorem findBestPlacement_policy_witness:
  "fits \<lparr>innerWidth = 800, innerHeight = 600\<rparr> (elementAt 500 100 50 20) (panelOf 120 40) Bottom
   \<and> findBestPlacement \<lparr>innerWidth = 800, innerHeight = 600\<rparr> (elementAt 500 100 50 20)
        (panelOf 120 40) Bottom [Left, Top] = Inr Bottom
   \<and> \<not> fits \<lparr>innerWidth = 800, innerHeight = 100\<rparr> (elementAt 50 100 50 20) (panelOf 120 60) Bottom
   \<and> \<not> fits \<lparr>innerWidth = 800, innerHeight = 100\<rparr> (elementAt 50 100 50 20) (panelOf 120 60) Top
   \<and> fits \<lparr>innerWidth = 800, innerHeight = 100\<rparr> (elementAt 50 100 50 20) (panelOf 120 60) Right
   \<and> findBestPlacement \<lparr>innerWidth = 800, innerHeight = 100\<rparr> (elementAt 50 100 50 20)
        (panelOf 120 60) Bottom [Top, Right, Left] = Inr Right
   \<and> \<not> fits \<lparr>innerWidth = 800, innerHeight = 600\<rparr> (elementAt 290 375 50 20) (panelOf 1000 1000) Bottom
   \<and> \<not> fits \<lparr>innerWidth = 800, innerHeight = 600\<rparr> (elementAt 290 375 50 20) (panelOf 1000 1000) Top
   \<and> \<not> fits \<lparr>innerWidth = 800, innerHeight = 600\<rparr> (elementAt 290 375 50 20) (panelOf 1000 1000) Right
   \<and> \<not> fits \<lparr>innerWidth = 800, innerHeight = 600\<rparr> (elementAt 290 375 50 20) (panelOf 1000 1000) Left
   \<and> (\<exists>i<4. findBestPlacement \<lparr>innerWidth = 800, innerHeight = 600\<rparr> (elementAt 290 375 50 20)
        (panelOf 1000 1000) Bottom [Top, Right, Left] = Inr ([Bottom, Top, Right, Left] ! i))"
proof -
  let ?W = "\<lparr>innerWidth = 800, innerHeight = 600\<rparr>"
  let ?V = "\<lparr>innerWidth = 800, innerHeight = 100\<rparr>"
  have f1: "fits ?W (elementAt 500 100 50 20) (panelOf 120 40) Bottom"
    by (simp add: fits_def elementAt_def panelOf_def boundingRect_def)
  have f2: "\<not> fits ?V (elementAt 50 100 50 20) (panelOf 120 60) Bottom"
    "\<not> fits ?V (elementAt 50 100 50 20) (panelOf 120 60) Top"
    "fits ?V (elementAt 50 100 50 20) (panelOf 120 60) Right"
    by (simp_all add: fits_def elementAt_def panelOf_def boundingRect_def)
  have f3: "\<not> fits ?W (elementAt 290 375 50 20) (panelOf 1000 1000) Bottom"
    "\<not> fits ?W (elementAt 290 375 50 20) (panelOf 1000 1000) Top"
    "\<not> fits ?W (elementAt 290 375 50 20) (panelOf 1000 1000) Right"
    "\<not> fits ?W (elementAt 290 375 50 20) (panelOf 1000 1000) Left"
    by (simp_all add: fits_def elementAt_def panelOf_def boundingRect_def)
  have r1: "findBestPlacement ?W (elementAt 500 100 50 20) (panelOf 120 40) Bottom [Left, Top] = Inr Bottom"
    using findBestPlacement_policy[of ?W "elementAt 500 100 50 20" "panelOf 120 40" Bottom "[Left, Top]"] f1
    by blast
  have r2: "findBestPlacement ?V (elementAt 50 100 50 20) (panelOf 120 60) Bottom [Top, Right, Left] = Inr Right"
    using findBestPlacement_policy[of ?V "elementAt 50 100 50 20" "panelOf 120 60" Bottom
        "[Top, Right, Left]" "[Top]" Right "[Left]"] f2
    by simp
  have r3: "\<exists>i<4. findBestPlacement ?W (elementAt 290 375 50 20) (panelOf 1000 1000) Bottom [Top, Right, Left]
      = Inr ([Bottom, Top, Right, Left] ! i)"
  proof -
    have h: "\<not> fits ?W (elementAt 290 375 50 20) (panelOf 1000 1000) Bottom
        \<and> (\<forall>x\<in>set [Top, Right, Left]. \<not> fits ?W (elementAt 290 375 50 20) (panelOf 1000 1000) x)"
      using f3 by simp
    obtain i where "i < length (Bottom # [Top, Right, Left])"
      "findBestPlacement ?W (elementAt 290 375 50 20) (panelOf 1000 1000) Bottom [Top, Right, Left]
         = Inr ((Bottom # [Top, Right, Left]) ! i)"
      using findBestPlacement_policy[of ?W "elementAt 290 375 50 20" "panelOf 1000 1000" Bottom
          "[Top, Right, Left]"] h
      by blast
    then show ?thesis by (intro exI[of _ i]) simp
  qed
  show ?thesis using f1 f2 f3 r1 r2 r3 by blast
qed

text \<open>
  Claim C7. The anchor at top 500, left 100, 50 by 20, in a viewport of 800 by 600, with
  placement bottom and fallbacks top, right, left: a footprint of 120 by 40 gives bottom
  (80 available), a footprint of 120 by 150 gives top (500 available).
\<close>

theorem findBestPlacement_scenarios:
  "findBestPlacement \<lparr>innerWidth = 800, innerHeight = 600\<rparr> (elementAt 500 100 50 20)
       (panelOf 120 40) Bottom [Top, Right, Left] = Inr Bottom
   \<and> getAvailableSpace \<lparr>innerWidth = 800, innerHeight = 600\<rparr> (elementAt 500 100 50 20) Bottom = 600 - 520
   \<and> findBestPlacement \<lparr>innerWidth = 800, innerHeight = 600\<rparr> (elementAt 500 100 50 20)
       (panelOf 120 150) Bottom [Top, Right, Left] = Inr Top
   \<and> getAvailableSpace \<lparr>innerWidth = 800, innerHeight = 600\<rparr> (elementAt 500 100 50 20) Top = 500"
  by (simp add: findBestPlacement_def elementAt_def panelOf_def boundingRect_def)

lemma findBestPlacement_total:
  "\<exists>p. findBestPlacement win anchor popover preferred fallbacks = Inr p"
  by (simp add: findBestPlacement_unfold split: option.split)

lemma findBestPlacement_mem:
  "findBestPlacement win anchor popover preferred fallbacks = Inr p \<Longrightarrow> p \<in> set (preferred # fallbacks)"
  using foldl_moreSpace_mem[of win anchor preferred fallbacks]
  by (auto simp: findBestPlacement_unfold split: if_splits option.splits dest: tryFallbacks_mem)

subsection \<open>The controller\<close>

text \<open>
  Claim C8. With the geometry, the footprint and the configuration fixed, \<open>update\<close> run
  twice gives the same side both times. The side is what \<open>findBestPlacement\<close> returns for
  the configured placement and fallbacks, whatever placement the panel carried before.
\<close>

theorem update_idempotent:
  "\<exists>c1 c2. update win anchor popover c = Inr c1 \<and> update win anchor popover c1 = Inr c2
     \<and> placementAttr c2 = placementAttr c1
     \<and> findBestPlacement win anchor popover (cfg_placement c) (cfg_fallbacks c) = Inr (placementAttr c1)
     \<and> (\<forall>prior. \<exists>c3. update win anchor popover (c\<lparr>placementAttr := prior\<rparr>) = Inr c3
           \<and> placementAttr c3 = placementAttr c1)"
proof -
  obtain p where p: "findBestPlacement win anchor popover (cfg_placement c) (cfg_fallbacks c) = Inr p"
    using findBestPlacement_total by blast
  let ?c1 = "c\<lparr>placementAttr := p, updateCalls := Suc (updateCalls c)\<rparr>"
  let ?c2 = "?c1\<lparr>placementAttr := p, updateCalls := Suc (updateCalls ?c1)\<rparr>"
  have 1: "update win anchor popover c = Inr ?c1"
    by (simp add: update_def p)
  have 2: "update win anchor popover ?c1 = Inr ?c2"
    by (simp add: update_def p)
  have 3: "\<forall>prior. \<exists>c3. update win anchor popover (c\<lparr>placementAttr := prior\<rparr>) = Inr c3
           \<and> placementAttr c3 = placementAttr ?c1"
    by (simp add: update_def p)
  show ?thesis
    using 1 2 3 p by (intro exI[of _ ?c1] exI[of _ ?c2]) simp
qed

text \<open>
  Claim C10. With the \<open>fallbacks\<close> option omitted, the fallback list is top, right, left
  without the preferred placement. So the preferred side is not among the fallbacks and
  the candidates are distinct; with the placement omitted as well the candidates are
  bottom, then top, right, left. For a preferred placement other than bottom, bottom is
  no candidate: neither \<open>findBestPlacement\<close> nor \<open>update\<close> can select it, whatever the
  geometry.
\<close>

theorem default_fallbacks:
  "opt_fallbacks opts = None \<longrightarrow>
     cfg_fallbacks (createPopover chain opts)
        = filter (\<lambda>p. p \<noteq> cfg_placement (createPopover chain opts)) [Top, Right, Left]
     \<and> cfg_placement (createPopover chain opts) \<notin> set (cfg_fallbacks (createPopover chain opts))
     \<and> distinct (cfg_placement (createPopover chain opts) # cfg_fallbacks (createPopover chain opts))
     \<and> (opt_placement opts = None \<longrightarrow>
           cfg_placement (createPopover chain opts) = Bottom
           \<and> cfg_fallbacks (createPopover chain opts) = [Top, Right, Left])
     \<and> (cfg_placement (createPopover chain opts) \<noteq> Bottom \<longrightarrow>
           Bottom \<notin> set (cfg_placement (createPopover chain opts) # cfg_fallbacks (createPopover chain opts))
           \<and> findBestPlacement win anchor popover (cfg_placement (createPopover chain opts))
                (cfg_fallbacks (createPopover chain opts)) \<noteq> Inr Bottom
           \<and> (\<forall>c'. update win anchor popover (createPopover chain opts) = Inr c' \<longrightarrow>
                  placementAttr c' \<noteq> Bottom))"
proof (intro impI)
  assume none: "opt_fallbacks opts = None"
  let ?c = "createPopover chain opts"
  have f: "cfg_fallbacks ?c = filter (\<lambda>p. p \<noteq> cfg_placement ?c) [Top, Right, Left]"
    using none by (simp add: createPopover_def Let_def defaultFallbacks_def)
  have nin: "cfg_placement ?c \<notin> set (cfg_fallbacks ?c)"
    unfolding f by simp
  have d: "distinct (cfg_placement ?c # cfg_fallbacks ?c)"
    using nin unfolding f by simp
  have dflt: "opt_placement opts = None \<longrightarrow> cfg_placement ?c = Bottom \<and> cfg_fallbacks ?c = [Top, Right, Left]"
    using none by (simp add: createPopover_def Let_def defaultFallbacks_def defaultPlacement_def)
  have nb: "Bottom \<notin> set (cfg_placement ?c # cfg_fallbacks ?c)" if "cfg_placement ?c \<noteq> Bottom"
    using that unfolding f by auto
  have fb: "findBestPlacement win anchor popover (cfg_placement ?c) (cfg_fallbacks ?c) \<noteq> Inr Bottom"
    if "cfg_placement ?c \<noteq> Bottom"
    using nb[OF that] findBestPlacement_mem[of win anchor popover "cfg_placement ?c" "cfg_fallbacks ?c" Bottom]
    by blast
  have up: "\<forall>c'. update win anchor popover ?c = Inr c' \<longrightarrow> placementAttr c' \<noteq> Bottom"
    if "cfg_placement ?c \<noteq> Bottom"
    using fb[OF that] by (auto simp: update_def split: sum.splits)
  show "cfg_fallbacks ?c = filter (\<lambda>p. p \<noteq> cfg_placement ?c) [Top, Right, Left]
     \<and> cfg_placement ?c \<notin> set (cfg_fallbacks ?c)
     \<and> distinct (cfg_placement ?c # cfg_fallbacks ?c)
     \<and> (opt_placement opts = None \<longrightarrow> cfg_placement ?c = Bottom \<and> cfg_fallbacks ?c = [Top, Right, Left])
     \<and> (cfg_placement ?c \<noteq> Bottom \<longrightarrow>
           Bottom \<notin> set (cfg_placement ?c # cfg_fallbacks ?c)
           \<and> findBestPlacement win anchor popover (cfg_placement ?c) (cfg_fallbacks ?c) \<noteq> Inr Bottom
           \<and> (\<forall>c'. update win anchor popover ?c = Inr c' \<longrightarrow> placementAttr c' \<noteq> Bottom))"
    using f nin d dflt nb fb up by blast
qed

text \<open>
  The preferred placement top, with an anchor near the top edge and a panel that fits
  nowhere: bottom has the most space (570) and is still not selected. With both options
  omitted the candidates are bottom, top, right, left.
\<close>

theorem default_fallbacks_witness:
  "cfg_placement (createPopover [] \<lparr>opt_placement = Some Top, opt_offset = None, opt_fallbacks = None\<rparr>) = Top
   \<and> cfg_fallbacks (createPopover [] \<lparr>opt_placement = Some Top, opt_offset = None, opt_fallbacks = None\<rparr>)
        = [Right, Left]
   \<and> getAvailableSpace \<lparr>innerWidth = 800, innerHeight = 600\<rparr> (elementAt 10 375 50 20) Bottom = 570
   \<and> getAvailableSpace \<lparr>innerWidth = 800, innerHeight = 600\<rparr> (elementAt 10 375 50 20) Right = 375
   \<and> findBestPlacement \<lparr>innerWidth = 800, innerHeight = 600\<rparr> (elementAt 10 375 50 20) (panelOf 1000 1000)
        Top [Right, Left] \<noteq> Inr Bottom
   \<and> cfg_placement (createPopover [] \<lparr>opt_placement = None, opt_offset = None, opt_fallbacks = None\<rparr>) = Bottom
   \<and> cfg_fallbacks (createPopover [] \<lparr>opt_placement = None, opt_offset = None, opt_fallbacks = None\<rparr>)
        = [Top, Right, Left]"
proof -
  let ?o = "\<lparr>opt_placement = Some Top, opt_offset = None, opt_fallbacks = None\<rparr>"
  let ?n = "\<lparr>opt_placement = None, opt_offset = None, opt_fallbacks = None\<rparr>"
  let ?W = "\<lparr>innerWidth = 800, innerHeight = 600\<rparr>"
  have p: "cfg_placement (createPopover [] ?o) = Top"
    by (simp add: createPopover_def Let_def defaultPlacement_def)
  have h: "opt_fallbacks ?o = None" "opt_fallbacks ?n = None" "opt_placement ?n = None" by simp_all
  have sp: "getAvailableSpace ?W (elementAt 10 375 50 20) Bottom = 570"
    "getAvailableSpace ?W (elementAt 10 375 50 20) Right = 375"
    by (simp_all add: elementAt_def boundingRect_def)
  have 1: "cfg_fallbacks (createPopover [] ?o) = [Right, Left]
      \<and> findBestPlacement ?W (elementAt 10 375 50 20) (panelOf 1000 1000) Top [Right, Left] \<noteq> Inr Bottom"
    using default_fallbacks[of ?o "[]" ?W "elementAt 10 375 50 20" "panelOf 1000 1000"] h p by auto
  have 2: "cfg_placement (createPopover [] ?n) = Bottom \<and> cfg_fallbacks (createPopover [] ?n) = [Top, Right, Left]"
    using default_fallbacks[of ?n "[]"] h by blast
  show ?thesis using p sp 1 2 by blast
qed

subsection \<open>Subscriptions\<close>

lemma fold_insert_set: "fold insert xs S = set xs \<union> S"
  by (induction xs arbitrary: S) auto

lemma fold_remove_set: "fold (\<lambda>parent ls. ls - {parent}) xs S = S - set xs"
  by (induction xs arbitrary: S) auto

lemma update_frame:
  "update win anchor popover c = Inr c' \<Longrightarrow>
     observed c' = observed c \<and> scrollListeners c' = scrollListeners c
     \<and> scrollParents c' = scrollParents c \<and> cfg_placement c' = cfg_placement c
     \<and> cfg_fallbacks c' = cfg_fallbacks c"
  by (auto simp: update_def split: sum.splits)

lemma update_total: "\<exists>c'. update win anchor popover c = Inr c'"
  using findBestPlacement_total[of win anchor popover "cfg_placement c" "cfg_fallbacks c"]
  by (auto simp: update_def)

lemma deliver_total: "\<exists>c'. deliver win anchor popover sig c = Inr c'"
  using update_total[of win anchor popover c] by (simp add: deliver_def)

lemma deliver_frame:
  "deliver win anchor popover sig c = Inr c' \<Longrightarrow>
     observed c' = observed c \<and> scrollListeners c' = scrollListeners c
     \<and> scrollParents c' = scrollParents c"
  using update_frame[of win anchor popover c c'] by (auto simp: deliver_def split: if_splits)

lemma deliverAll_total_frame:
  "\<exists>c'. deliverAll evs c = Inr c' \<and> observed c' = observed c
     \<and> scrollListeners c' = scrollListeners c \<and> scrollParents c' = scrollParents c"
proof (induction evs arbitrary: c)
  case Nil
  then show ?case by simp
next
  case (Cons ev evs)
  obtain win anchor popover sig where ev: "ev = ((win, anchor, popover), sig)"
    by (metis prod.exhaust)
  obtain bonus_final_scores where bonus_final_scores: "deliver win anchor popover sig c = Inr bonus_final_scores"
    using deliver_total by blast
  from Cons.IH[of bonus_final_scores] deliver_frame[OF bonus_final_scores] show ?case
    by (simp add: ev bonus_final_scores)
qed

lemma destroy_unsubscribed:
  assumes "scrollListeners c \<subseteq> set (scrollParents c)"
  shows "\<not> subscribed (destroy c) sig"
  using assms by (cases sig) (auto simp: destroy_def fold_remove_set)

lemma deliverAll_unsubscribed:
  assumes "observed d = {}" "scrollListeners d = {}"
  shows "deliverAll sigs d = Inr d"
proof (induction sigs)
  case Nil
  then show ?case by simp
next
  case (Cons ev sigs)
  obtain win anchor popover sig where ev: "ev = ((win, anchor, popover), sig)"
    by (metis prod.exhaust)
  have "\<not> subscribed d sig" using assms by (cases sig) auto
  then show ?case using Cons by (simp add: ev deliver_def)
qed

lemma createPopover_listeners:
  "scrollListeners (createPopover chain opts) = set (scrollParents (createPopover chain opts))"
  by (simp add: createPopover_def Let_def fold_insert_set)

text \<open>
  An example: for an anchor whose parent does not scroll and whose grandparent does, the
  new controller is subscribed to size changes of the anchor and of the panel and to
  scrolls of the grandparent and of the document element, not to scrolls of the parent.
\<close>

lemma createPopover_subscribed:
  "subscribed (createPopover [(Ancestor 0, False), (Ancestor 1, True)]
       \<lparr>opt_placement = None, opt_offset = None, opt_fallbacks = None\<rparr>) (Scroll (Ancestor 1))
   \<and> subscribed (createPopover [(Ancestor 0, False), (Ancestor 1, True)]
       \<lparr>opt_placement = None, opt_offset = None, opt_fallbacks = None\<rparr>) (Scroll DocumentElement)
   \<and> subscribed (createPopover [(Ancestor 0, False), (Ancestor 1, True)]
       \<lparr>opt_placement = None, opt_offset = None, opt_fallbacks = None\<rparr>) (SizeChange AnchorEl)
   \<and> subscribed (createPopover [(Ancestor 0, False), (Ancestor 1, True)]
       \<lparr>opt_placement = None, opt_offset = None, opt_fallbacks = None\<rparr>) (SizeChange PopoverEl)
   \<and> \<not> subscribed (createPopover [(Ancestor 0, False), (Ancestor 1, True)]
       \<lparr>opt_placement = None, opt_offset = None, opt_fallbacks = None\<rparr>) (Scroll (Ancestor 0))"
  by (simp add: createPopover_def getScrollParents_def)

text \<open>
  Claim C9. Take a controller as \<open>createPopover\<close> made it, after any run of signals.
  After \<open>destroy\<close> the ResizeObserver has no target and no element carries the scroll
  listener, so the controller is subscribed to no signal; any further run of size-change
  and scroll signals leaves the state as it is: \<open>update\<close> is not called again.
\<close>

theorem destroy_severs_subscriptions:
  "\<exists>c. deliverAll evs (createPopover chain opts) = Inr c
     \<and> observed (destroy c) = {}
     \<and> scrollListeners (destroy c) = {}
     \<and> (\<forall>sig. \<not> subscribed (destroy c) sig)
     \<and> (\<forall>sigs. deliverAll sigs (destroy c) = Inr (destroy c))"
proof -
  let ?c0 = "createPopover chain opts"
  obtain c where c: "deliverAll evs ?c0 = Inr c" "scrollListeners c = scrollListeners ?c0"
    "scrollParents c = scrollParents ?c0"
    using deliverAll_total_frame[of evs ?c0] by blast
  have sub: "scrollListeners c \<subseteq> set (scrollParents c)"
    using c createPopover_listeners[of chain opts] by simp
  have o: "observed (destroy c) = {}" by (simp add: destroy_def)
  have l: "scrollListeners (destroy c) = {}"
    using sub by (auto simp: destroy_def fold_remove_set)
  have "\<forall>sigs. deliverAll sigs (destroy c) = Inr (destroy c)"
    using deliverAll_unsubscribed[OF o l] by blast
  moreover have "\<forall>sig. \<not> subscribed (destroy c) sig"
    using destroy_unsubscribed[OF sub] by blast
  ultimately show ?thesis using c(1) o l by blast
qed

text \<open>
  A size change of the anchor runs \<open>update\<close> once before \<open>destroy\<close>; the same signal and a
  scroll of a scroll parent after \<open>destroy\<close> leave the count of runs at one.
\<close>

theorem destroy_severs_subscriptions_witness:
  "(\<exists>c. deliverAll [((\<lparr>innerWidth = 800, innerHeight = 600\<rparr>, elementAt 500 100 50 20, panelOf 120 150),
                      SizeChange AnchorEl)]
          (createPopover [(Ancestor 0, False), (Ancestor 1, True)]
             \<lparr>opt_placement = None, opt_offset = None, opt_fallbacks = None\<rparr>) = Inr c
       \<and> updateCalls c = 1 \<and> placementAttr c = Top
       \<and> deliverAll [((\<lparr>innerWidth = 800, innerHeight = 600\<rparr>, elementAt 500 100 50 20, panelOf 120 40),
                        SizeChange AnchorEl),
                       ((\<lparr>innerWidth = 800, innerHeight = 600\<rparr>, elementAt 500 100 50 20, panelOf 120 40),
                        Scroll (Ancestor 1))]
            (destroy c) = Inr (destroy c)
       \<and> updateCalls (destroy c) = 1 \<and> placementAttr (destroy c) = Top)"
proof -
  let ?W = "\<lparr>innerWidth = 800, innerHeight = 600\<rparr>"
  let ?c0 = "createPopover [(Ancestor 0, False), (Ancestor 1, True)]
             \<lparr>opt_placement = None, opt_offset = None, opt_fallbacks = None\<rparr>"
  let ?evs = "[((?W, elementAt 500 100 50 20, panelOf 120 150), SizeChange AnchorEl)]"
  obtain c where c: "deliverAll ?evs ?c0 = Inr c"
    and d: "\<forall>sigs. deliverAll sigs (destroy c) = Inr (destroy c)"
    using destroy_severs_subscriptions[of ?evs "[(Ancestor 0, False), (Ancestor 1, True)]"
        "\<lparr>opt_placement = None, opt_offset = None, opt_fallbacks = None\<rparr>"]
    by blast
  have e: "deliverAll ?evs ?c0 = Inr (?c0\<lparr>placementAttr := Top, updateCalls := 1\<rparr>)"
    by (simp add: deliver_def update_def createPopover_def Let_def getScrollParents_def defaultPlacement_def
        defaultFallbacks_def defaultOffset_def findBestPlacement_def elementAt_def panelOf_def boundingRect_def)
  have "c = ?c0\<lparr>placementAttr := Top, updateCalls := 1\<rparr>" using c e by simp
  then have "updateCalls c = 1" "placementAttr c = Top"
    "updateCalls (destroy c) = 1" "placementAttr (destroy c) = Top"
    by (simp_all add: destroy_def)
  then show ?thesis using c d by blast
qed

subsection \<open>v0.1.2: the scores\<close>

lemma set_computeScores:
  "set (computeScores win anchor sz prefs) = set (map setScore (candidates win anchor sz prefs))"
  by (simp add: computeScores_def sortByScore_def)

lemma sort_key_map:
  assumes "map g xs = ys" "distinct ys"
  shows "set (map g (sort_key f xs)) = set ys \<and> length (sort_key f xs) = length ys
     \<and> distinct (map g (sort_key f xs))"
proof -
  have "set (map g (sort_key f xs)) = set (map g xs)" by simp
  moreover have "length (sort_key f xs) = length (map g xs)" by simp
  moreover have "distinct (map g (sort_key f xs))"
    using assms by (auto simp: distinct_map)
  ultimately show ?thesis unfolding assms(1) by blast
qed

lemma scored_placements:
  "map placement (map setScore (candidates win anchor sz prefs)) = [Top, Bottom, Left, Right]"
  by (simp add: candidates_def setScore_def Let_def)

lemma computeScores_placements:
  "set (map placement (computeScores win anchor sz prefs)) = {Top, Bottom, Left, Right}
   \<and> length (computeScores win anchor sz prefs) = 4
   \<and> distinct (map placement (computeScores win anchor sz prefs))"
  unfolding computeScores_def sortByScore_def
  using sort_key_map[OF scored_placements[of win anchor sz prefs], where f = "\<lambda>s. - score s"]
  by simp

lemma abs_halves: "\<bar>w / 2 - s / 2\<bar> * 2 = \<bar>w - s\<bar>" for w s :: real
proof (cases "s \<le> w")
  case True
  then have "s / 2 \<le> w / 2" by simp
  then have "\<bar>w / 2 - s / 2\<bar> = w / 2 - s / 2" by linarith
  moreover have "\<bar>w - s\<bar> = w - s" using True by linarith
  ultimately show ?thesis by simp
next
  case False
  then have "w / 2 < s / 2" by simp
  then have "\<bar>w / 2 - s / 2\<bar> = s / 2 - w / 2" by linarith
  moreover have "\<bar>w - s\<bar> = s - w" using False by linarith
  ultimately show ?thesis by simp
qed

lemma abs_centres: "\<bar>a + w / 2 - (a + s / 2)\<bar> = \<bar>w - s\<bar> / (2::real)"
  using abs_halves[of w s] by simp

lemma misalign_scored:
  "map (\<lambda>s. (placement s, misalign s)) (map setScore (candidates win anchor sz prefs)) =
     [(Top, \<bar>rect_width (boundingClientRect anchor) - width sz\<bar> / 2),
      (Bottom, \<bar>rect_width (boundingClientRect anchor) - width sz\<bar> / 2),
      (Left, \<bar>rect_height (boundingClientRect anchor) - height sz\<bar> / 2),
      (Right, \<bar>rect_height (boundingClientRect anchor) - height sz\<bar> / 2)]"
  by (simp add: candidates_def setScore_def Let_def abs_halves)

lemma misalign_raw:
  "s \<in> set (map setScore (candidates win anchor sz prefs)) \<Longrightarrow>
     misalign s =
       (if placement s = Top \<or> placement s = Bottom
        then \<bar>rect_left (boundingClientRect anchor) + rect_width (boundingClientRect anchor) / 2
               - (rect_left (boundingClientRect anchor) + width sz / 2)\<bar>
        else \<bar>rect_top (boundingClientRect anchor) + rect_height (boundingClientRect anchor) / 2
               - (rect_top (boundingClientRect anchor) + height sz / 2)\<bar>)"
  by (auto simp: candidates_def setScore_def Let_def)

lemma fields_scored:
  "s \<in> set (map setScore (candidates win anchor sz prefs)) \<Longrightarrow>
     space s = getAvailableSpace win anchor (placement s)
     \<and> overflow s = max ((if placement s = Top \<or> placement s = Bottom then height sz else width sz) - space s) 0
     \<and> preference s = (case prefs (placement s) of None \<Rightarrow> 0 | Some v \<Rightarrow> v)
     \<and> score s = space s - overflow s - misalign s + preference s"
  by (auto simp: candidates_def setScore_def Let_def prefOr0_def)

lemma scenario_scores:
  "computeScores \<lparr>innerWidth = 800, innerHeight = 600\<rparr> (elementAt 500 100 50 20)
        \<lparr>width = 120, height = 40\<rparr> Map.empty =
     [\<lparr>placement = Right, space = 650, overflow = 0, misalign = 10, preference = 0, score = 640\<rparr>,
      \<lparr>placement = Top, space = 500, overflow = 0, misalign = 35, preference = 0, score = 465\<rparr>,
      \<lparr>placement = Left, space = 100, overflow = 20, misalign = 10, preference = 0, score = 70\<rparr>,
      \<lparr>placement = Bottom, space = 80, overflow = 0, misalign = 35, preference = 0, score = 45\<rparr>]"
  by (simp add: computeScores_def sortByScore_def candidates_def setScore_def prefOr0_def
      elementAt_def boundingRect_def)

lemma centred_scores:
  "computeScores \<lparr>innerWidth = 800, innerHeight = 600\<rparr> (elementAt 290 375 50 20)
        \<lparr>width = 50, height = 20\<rparr> Map.empty =
     [\<lparr>placement = Left, space = 375, overflow = 0, misalign = 0, preference = 0, score = 375\<rparr>,
      \<lparr>placement = Right, space = 375, overflow = 0, misalign = 0, preference = 0, score = 375\<rparr>,
      \<lparr>placement = Top, space = 290, overflow = 0, misalign = 0, preference = 0, score = 290\<rparr>,
      \<lparr>placement = Bottom, space = 290, overflow = 0, misalign = 0, preference = 0, score = 290\<rparr>]"
  by (simp add: computeScores_def sortByScore_def candidates_def setScore_def prefOr0_def
      elementAt_def boundingRect_def)

text \<open>
  Claim C3, as stated, fails: in the scenario of the specification (anchor 50 by 20,
  footprint 120 by 40) the misalignment is 35 for top and bottom and 10 for left and right.
\<close>

theorem misalign_nonzero:
  "map (\<lambda>s. (placement s, misalign s))
     (computeScores \<lparr>innerWidth = 800, innerHeight = 600\<rparr> (elementAt 500 100 50 20)
        \<lparr>width = 120, height = 40\<rparr> Map.empty)
   = [(Right, 10), (Top, 35), (Left, 10), (Bottom, 35)]"
  by (simp add: scenario_scores)

text \<open>
  Claim C3, amended. The misalignment of a side is half the absolute difference between
  the anchor's and the footprint's extent across that side: the widths for top and bottom,
  the heights for left and right. It is zero exactly when the two extents are equal.
\<close>

theorem misalign_value:
  "\<forall>s\<in>set (computeScores win anchor sz prefs).
      misalign s =
        (if placement s = Top \<or> placement s = Bottom
         then \<bar>rect_width (boundingClientRect anchor) - width sz\<bar> / 2
         else \<bar>rect_height (boundingClientRect anchor) - height sz\<bar> / 2)
      \<and> (misalign s = 0) =
        (if placement s = Top \<or> placement s = Bottom
         then rect_width (boundingClientRect anchor) = width sz
         else rect_height (boundingClientRect anchor) = height sz)"
proof
  fix s assume "s \<in> set (computeScores win anchor sz prefs)"
  then have "s \<in> set (map setScore (candidates win anchor sz prefs))"
    by (simp only: set_computeScores)
  then have "(placement s, misalign s) \<in> set (map (\<lambda>s. (placement s, misalign s)) (map setScore (candidates win anchor sz prefs)))"
    by (metis (no_types, lifting) image_eqI set_map)
  then have m: "misalign s =
        (if placement s = Top \<or> placement s = Bottom
         then \<bar>rect_width (boundingClientRect anchor) - width sz\<bar> / 2
         else \<bar>rect_height (boundingClientRect anchor) - height sz\<bar> / 2)"
    unfolding misalign_scored by auto
  show "misalign s =
        (if placement s = Top \<or> placement s = Bottom
         then \<bar>rect_width (boundingClientRect anchor) - width sz\<bar> / 2
         else \<bar>rect_height (boundingClientRect anchor) - height sz\<bar> / 2)
      \<and> (misalign s = 0) =
        (if placement s = Top \<or> placement s = Bottom
         then rect_width (boundingClientRect anchor) = width sz
         else rect_height (boundingClientRect anchor) = height sz)"
    by (subst m, subst m) simp
qed

theorem misalign_value_witness:
  "placement (hd (computeScores \<lparr>innerWidth = 800, innerHeight = 600\<rparr> (elementAt 500 100 50 20)
        \<lparr>width = 120, height = 40\<rparr> Map.empty)) = Right
   \<and> misalign (hd (computeScores \<lparr>innerWidth = 800, innerHeight = 600\<rparr> (elementAt 500 100 50 20)
        \<lparr>width = 120, height = 40\<rparr> Map.empty)) = \<bar>20 - 40\<bar> / 2"
proof -
  let ?cs = "computeScores \<lparr>innerWidth = 800, innerHeight = 600\<rparr> (elementAt 500 100 50 20)
        \<lparr>width = 120, height = 40\<rparr> Map.empty"
  have mem: "hd ?cs \<in> set ?cs" and p: "placement (hd ?cs) = Right"
    by (simp_all add: scenario_scores)
  show ?thesis
    using misalign_value[of "\<lparr>innerWidth = 800, innerHeight = 600\<rparr>" "elementAt 500 100 50 20"
        "\<lparr>width = 120, height = 40\<rparr>" Map.empty] mem p
    by (simp add: elementAt_def boundingRect_def)
qed

subsection \<open>v0.1.2: the ranking\<close>

lemma hd_sort_key_le:
  assumes "y \<in> set xs"
  shows "f (hd (sort_key f xs)) \<le> f y"
proof -
  have s: "sorted (map f (sort_key f xs))" by (rule sorted_sort_key)
  have y: "y \<in> set (sort_key f xs)" using assms by simp
  then obtain h t where ht: "sort_key f xs = h # t" by (cases "sort_key f xs") auto
  show ?thesis using s y unfolding ht by auto
qed

lemma hd_sort_key_first:
  assumes "xs \<noteq> []"
  shows "hd (sort_key f xs) = hd (filter (\<lambda>y. f y = f (hd (sort_key f xs))) xs)"
proof -
  have "set (sort_key f xs) \<noteq> {}" using assms by simp
  then have "sort_key f xs \<noteq> []" by (simp del: set_sort)
  then obtain h t where ht: "sort_key f xs = h # t"
    by (auto simp: neq_Nil_conv)
  have "filter (\<lambda>y. f y = f h) (sort_key f xs) = filter (\<lambda>y. f y = f h) xs"
    by (rule sort_key_stable)
  then have "filter (\<lambda>y. f y = f h) xs = h # filter (\<lambda>y. f y = f h) t"
    unfolding ht by simp
  then have "hd (filter (\<lambda>y. f y = f h) xs) = h"
    by simp
  then show ?thesis unfolding ht by simp
qed

lemma first_of_four:
  assumes h: "h = hd (filter P [a, b, c, d])" and s: "P s" "s \<in> set [a, b, c, d]"
    and g: "g a = Top" "g b = Bottom" "g c = Left" "g d = Right"
  shows "enumIndex (g h) \<le> enumIndex (g s)"
proof (cases "P a")
  case True
  then have "h = a" using h by simp
  then show ?thesis using g by simp
next
  case a: False
  show ?thesis
  proof (cases "P b")
    case True
    then have "h = b" using h a by simp
    moreover have "s \<noteq> a" using a s by auto
    ultimately show ?thesis using g s(2) by auto
  next
    case b: False
    show ?thesis
    proof (cases "P c")
      case True
      then have "h = c" using h a b by simp
      moreover have "s \<noteq> a" "s \<noteq> b" using a b s by auto
      ultimately show ?thesis using g s(2) by auto
    next
      case c: False
      have "s \<noteq> a" "s \<noteq> b" "s \<noteq> c" using a b c s by auto
      then have "s = d" using s(2) by simp
      moreover have "h = d" using h a b c s \<open>s = d\<close> by simp
      ultimately show ?thesis by simp
    qed
  qed
qed

text \<open>
  Claim C4, as stated, fails: the score is not \<open>space - overflow + bias\<close>. For an anchor of
  50 by 20 at (300, 300) in a viewport of 400 by 600 and a footprint of 400 by 100, the
  scores are 160, 125, 105 and -340 where the stated formula gives 200, 300, 280 and -300;
  left is ranked first, where the stated formula would rank top first.
\<close>

theorem score_subtracts_misalign:
  "map (\<lambda>s. (placement s, score s, space s - overflow s + preference s))
     (computeScores \<lparr>innerWidth = 400, innerHeight = 600\<rparr> (elementAt 300 300 50 20)
        \<lparr>width = 400, height = 100\<rparr> Map.empty)
   = [(Left, 160, 200), (Top, 125, 300), (Bottom, 105, 280), (Right, -340, -300)]"
  by (simp add: computeScores_def sortByScore_def candidates_def setScore_def prefOr0_def
      elementAt_def boundingRect_def)

text \<open>
  Claim C4, amended. All four sides are scored, whatever the preference sequence, each
  with \<open>overflow = max (footprint dimension - space) 0\<close>, the misalignment of the anchor's
  centre against the centre of the footprint laid at the anchor's edge, the bias of the
  side or 0, and \<open>score = space - overflow - misalign + bias\<close>. The side of greatest
  score is ranked first, and among sides of that score the first in the order top,
  bottom, left, right.
\<close>

theorem computeScores_scoring:
  "length (computeScores win anchor sz prefs) = 4
   \<and> set (map placement (computeScores win anchor sz prefs)) = {Top, Bottom, Left, Right}
   \<and> (\<forall>s\<in>set (computeScores win anchor sz prefs).
         space s = getAvailableSpace win anchor (placement s)
         \<and> overflow s = max ((if placement s = Top \<or> placement s = Bottom then height sz else width sz) - space s) 0
         \<and> misalign s =
              (if placement s = Top \<or> placement s = Bottom
               then \<bar>rect_left (boundingClientRect anchor) + rect_width (boundingClientRect anchor) / 2
                      - (rect_left (boundingClientRect anchor) + width sz / 2)\<bar>
               else \<bar>rect_top (boundingClientRect anchor) + rect_height (boundingClientRect anchor) / 2
                      - (rect_top (boundingClientRect anchor) + height sz / 2)\<bar>)
         \<and> preference s = (case prefs (placement s) of None \<Rightarrow> 0 | Some v \<Rightarrow> v)
         \<and> score s = space s - overflow s - misalign s + preference s)
   \<and> (\<forall>s\<in>set (computeScores win anchor sz prefs).
         score s \<le> score (hd (computeScores win anchor sz prefs))
         \<and> (score s = score (hd (computeScores win anchor sz prefs)) \<longrightarrow>
              enumIndex (placement (hd (computeScores win anchor sz prefs))) \<le> enumIndex (placement s)))"
proof (intro conjI ballI impI)
  show "length (computeScores win anchor sz prefs) = 4"
    using computeScores_placements by blast
  show "set (map placement (computeScores win anchor sz prefs)) = {Top, Bottom, Left, Right}"
    using computeScores_placements by blast
next
  fix s assume "s \<in> set (computeScores win anchor sz prefs)"
  then have s: "s \<in> set (map setScore (candidates win anchor sz prefs))"
    by (simp only: set_computeScores)
  show "space s = getAvailableSpace win anchor (placement s)"
    and "overflow s = max ((if placement s = Top \<or> placement s = Bottom then height sz else width sz) - space s) 0"
    and "preference s = (case prefs (placement s) of None \<Rightarrow> 0 | Some v \<Rightarrow> v)"
    and "score s = space s - overflow s - misalign s + preference s"
    using fields_scored[OF s] by blast+
  show "misalign s =
          (if placement s = Top \<or> placement s = Bottom
           then \<bar>rect_left (boundingClientRect anchor) + rect_width (boundingClientRect anchor) / 2
                  - (rect_left (boundingClientRect anchor) + width sz / 2)\<bar>
           else \<bar>rect_top (boundingClientRect anchor) + rect_height (boundingClientRect anchor) / 2
                  - (rect_top (boundingClientRect anchor) + height sz / 2)\<bar>)"
    using s by (rule misalign_raw)
next
  fix s assume "s \<in> set (computeScores win anchor sz prefs)"
  then have s: "s \<in> set (map setScore (candidates win anchor sz prefs))"
    by (simp only: set_computeScores)
  let ?xs = "map setScore (candidates win anchor sz prefs)"
  let ?h = "hd (computeScores win anchor sz prefs)"
  have h: "?h = hd (sort_key (\<lambda>s. - score s) ?xs)"
    by (simp add: computeScores_def sortByScore_def)
  have "- score ?h \<le> - score s"
    unfolding h using s by (rule hd_sort_key_le)
  then show "score s \<le> score ?h" by simp
  assume eq: "score s = score ?h"
  obtain a b c d where xs: "?xs = [a, b, c, d]"
    by (simp add: candidates_def Let_def)
  have pl: "placement a = Top" "placement b = Bottom" "placement c = Left" "placement d = Right"
    using scored_placements[of win anchor sz prefs] unfolding xs by simp_all
  have "?xs \<noteq> []" unfolding xs by simp
  then have "?h = hd (filter (\<lambda>y. - score y = - score ?h) ?xs)"
    unfolding h by (rule hd_sort_key_first)
  then have "?h = hd (filter (\<lambda>y. - score y = - score ?h) [a, b, c, d])"
    unfolding xs .
  moreover have "- score s = - score ?h" using eq by simp
  moreover have "s \<in> set [a, b, c, d]" using s unfolding xs .
  ultimately show "enumIndex (placement ?h) \<le> enumIndex (placement s)"
    using pl by (rule first_of_four)
qed

text \<open>
  A centred anchor with a footprint of its own size: left and right tie at 375, and left,
  the earlier in the enumeration, is ranked first.
\<close>

theorem computeScores_scoring_witness:
  "placement (hd (computeScores \<lparr>innerWidth = 800, innerHeight = 600\<rparr> (elementAt 290 375 50 20)
        \<lparr>width = 50, height = 20\<rparr> Map.empty)) = Left
   \<and> placement (computeScores \<lparr>innerWidth = 800, innerHeight = 600\<rparr> (elementAt 290 375 50 20)
        \<lparr>width = 50, height = 20\<rparr> Map.empty ! 1) = Right
   \<and> score (computeScores \<lparr>innerWidth = 800, innerHeight = 600\<rparr> (elementAt 290 375 50 20)
        \<lparr>width = 50, height = 20\<rparr> Map.empty ! 1)
       = score (hd (computeScores \<lparr>innerWidth = 800, innerHeight = 600\<rparr> (elementAt 290 375 50 20)
        \<lparr>width = 50, height = 20\<rparr> Map.empty))
   \<and> enumIndex (placement (hd (computeScores \<lparr>innerWidth = 800, innerHeight = 600\<rparr> (elementAt 290 375 50 20)
        \<lparr>width = 50, height = 20\<rparr> Map.empty)))
       \<le> enumIndex (placement (computeScores \<lparr>innerWidth = 800, innerHeight = 600\<rparr> (elementAt 290 375 50 20)
        \<lparr>width = 50, height = 20\<rparr> Map.empty ! 1))"
proof -
  let ?cs = "computeScores \<lparr>innerWidth = 800, innerHeight = 600\<rparr> (elementAt 290 375 50 20)
        \<lparr>width = 50, height = 20\<rparr> Map.empty"
  have mem: "?cs ! 1 \<in> set ?cs" and eq: "score (?cs ! 1) = score (hd ?cs)"
    and p: "placement (hd ?cs) = Left" "placement (?cs ! 1) = Right"
    by (simp_all add: centred_scores)
  have "enumIndex (placement (hd ?cs)) \<le> enumIndex (placement (?cs ! 1))"
    using computeScores_scoring[of "\<lparr>innerWidth = 800, innerHeight = 600\<rparr>" "elementAt 290 375 50 20"
        "\<lparr>width = 50, height = 20\<rparr>" Map.empty] mem eq
    by blast
  then show ?thesis using p eq by blast
qed

subsection \<open>v0.1.2: the positional bonus\<close>

lemma scoreOf_addBonus:
  "scoreOf p (addBonus q b xs) = (if p = q then map_option (\<lambda>a. a + b) (scoreOf p xs) else scoreOf p xs)"
  by (induction xs) (auto simp: scoreOf_def)

lemma placement_addBonus: "map placement (addBonus q b xs) = map placement xs"
  by (induction xs) auto

lemma placement_bonusLoop: "map placement (bonusLoop order i scores) = map placement scores"
proof (induction order i scores rule: bonusLoop.induct)
  case (1 order i scores)
  show ?case
  proof (cases "i < length order")
    case True
    then show ?thesis
      using "1.IH"[OF True refl] by (subst bonusLoop.simps) (simp add: placement_addBonus)
  next
    case False
    then show ?thesis by (subst bonusLoop.simps) simp
  qed
qed

lemma bonusSum_step:
  "i < length order \<Longrightarrow>
   bonusSum order i p = (if order ! i = p then real (length order - i) * 10000 else 0) + bonusSum order (Suc i) p"
  by (simp add: bonusSum_def sum.atLeast_Suc_lessThan)

lemma bonusSum_end: "\<not> i < length order \<Longrightarrow> bonusSum order i p = 0"
  by (simp add: bonusSum_def)

lemma scoreOf_bonusLoop:
  "scoreOf p (bonusLoop order i scores) = map_option (\<lambda>a. a + bonusSum order i p) (scoreOf p scores)"
proof (induction order i scores rule: bonusLoop.induct)
  case (1 order i scores)
  show ?case
  proof (cases "i < length order")
    case True
    have "scoreOf p (bonusLoop order i scores)
        = scoreOf p (bonusLoop order (i + 1) (addBonus (order ! i) (real (length order - i) * 10000) scores))"
      using True by (subst bonusLoop.simps) simp
    also have "\<dots> = map_option (\<lambda>a. a + bonusSum order (i + 1) p)
        (scoreOf p (addBonus (order ! i) (real (length order - i) * 10000) scores))"
      using "1.IH"[OF True refl] .
    also have "\<dots> = map_option (\<lambda>a. a + bonusSum order i p) (scoreOf p scores)"
      using True by (cases "scoreOf p scores") (auto simp: scoreOf_addBonus bonusSum_step)
    finally show ?thesis .
  next
    case False
    then show ?thesis
      by (subst bonusLoop.simps) (simp add: bonusSum_end option.map_ident)
  qed
qed

lemma bonusSum_unlisted: "p \<notin> set order \<Longrightarrow> bonusSum order 0 p = 0"
  unfolding bonusSum_def by (rule sum.neutral) auto

lemma bonusSum_listed:
  assumes "p \<in> set order"
  shows "10000 \<le> bonusSum order 0 p"
proof -
  from assms obtain k where k: "k < length order" "order ! k = p"
    by (auto simp: in_set_conv_nth)
  let ?f = "\<lambda>j. if order ! j = p then real (length order - j) * 10000 else 0"
  have "?f k \<le> sum ?f {0..<length order}"
    by (rule member_le_sum) (use k in auto)
  moreover have "10000 \<le> ?f k" using k by simp
  ultimately show ?thesis by (simp add: bonusSum_def)
qed

lemma bonusSum_distinct:
  assumes "distinct order" "k < length order"
  shows "bonusSum order 0 (order ! k) = real (length order - k) * 10000"
proof -
  have "\<And>j. j < length order \<Longrightarrow> (order ! j = order ! k) = (j = k)"
    using assms by (simp add: nth_eq_iff_index_eq)
  then have "bonusSum order 0 (order ! k)
      = (\<Sum>j = 0..<length order. if j = k then real (length order - j) * 10000 else 0)"
    unfolding bonusSum_def by (intro sum.cong) auto
  also have "\<dots> = real (length order - k) * 10000"
    using assms(2) by simp
  finally show ?thesis .
qed

lemma scoreOf_Some:
  "p \<in> set (map placement xs) \<Longrightarrow> \<exists>a. scoreOf p xs = Some a"
  by (induction xs) (auto simp: scoreOf_def)

lemma scoreOf_raw: "\<exists>a. scoreOf p (computeScores win anchor sz prefs) = Some a"
proof -
  have "p \<in> {Top, Bottom, Left, Right}" by (cases p) simp_all
  then have "p \<in> set (map placement (computeScores win anchor sz prefs))"
    using computeScores_placements[of win anchor sz prefs] by simp
  then show ?thesis by (rule scoreOf_Some)
qed

text \<open>
  The loop changes scores only: the entries keep their sides and their order, and the
  list is not sorted again. So \<open>computeBest\<close> returns the side ranked first by
  \<open>computeScores\<close>, whatever the preference sequence.
\<close>

lemma computeBest_raw_maximum:
  "computeBest win anchor pop plc prefs
     = Inr (placement (hd (computeScores win anchor \<lparr>width = offsetWidth pop, height = offsetHeight pop\<rparr> prefs)))"
proof -
  let ?raw = "computeScores win anchor \<lparr>width = offsetWidth pop, height = offsetHeight pop\<rparr> prefs"
  let ?order = "case plc of Many ps \<Rightarrow> ps | One p \<Rightarrow> [p]"
  have "map placement (bonusLoop ?order 0 ?raw) = map placement ?raw"
    by (rule placement_bonusLoop)
  moreover have "?raw \<noteq> []"
    using computeScores_placements[of win anchor "\<lparr>width = offsetWidth pop, height = offsetHeight pop\<rparr>" prefs]
    by force
  ultimately show ?thesis
    unfolding computeBest_def Let_def
    by (cases ?raw; cases "bonusLoop ?order 0 ?raw") auto
qed

text \<open>
  In the scenario of the specification with placement bottom, bottom has the greatest
  final score (10045 against 640) and \<open>computeBest\<close> returns right.
\<close>

lemma computeBest_typical:
  "scoreOf Bottom (bonusLoop [Bottom] 0 (computeScores \<lparr>innerWidth = 800, innerHeight = 600\<rparr>
       (elementAt 500 100 50 20) \<lparr>width = 120, height = 40\<rparr> Map.empty)) = Some 10045
   \<and> scoreOf Right (bonusLoop [Bottom] 0 (computeScores \<lparr>innerWidth = 800, innerHeight = 600\<rparr>
       (elementAt 500 100 50 20) \<lparr>width = 120, height = 40\<rparr> Map.empty)) = Some 640
   \<and> computeBest \<lparr>innerWidth = 800, innerHeight = 600\<rparr> (elementAt 500 100 50 20) (panelOf 120 40)
       (One Bottom) Map.empty = Inr Right"
  by (simp add: computeBest_def bonusLoop.simps scoreOf_def scenario_scores panelOf_def)

text \<open>
  Claim C1, as stated, fails: with the anchor 30000 below the top of a viewport of 800 by
  600 and placement bottom, the final score of bottom, the preferred side, is -48915 and
  that of top, which is not listed, is 29965; \<open>computeBest\<close> returns top.
\<close>

theorem bonus_not_dominant:
  "Bottom \<in> set [Bottom] \<and> Top \<notin> set [Bottom]
   \<and> scoreOf Bottom (bonusLoop [Bottom] 0 (computeScores \<lparr>innerWidth = 800, innerHeight = 600\<rparr>
       (elementAt 30000 100 50 20) \<lparr>width = 120, height = 40\<rparr> Map.empty)) = Some (-48915)
   \<and> scoreOf Top (bonusLoop [Bottom] 0 (computeScores \<lparr>innerWidth = 800, innerHeight = 600\<rparr>
       (elementAt 30000 100 50 20) \<lparr>width = 120, height = 40\<rparr> Map.empty)) = Some 29965
   \<and> computeBest \<lparr>innerWidth = 800, innerHeight = 600\<rparr> (elementAt 30000 100 50 20) (panelOf 120 40)
       (One Bottom) Map.empty = Inr Top"
  by (simp add: computeBest_def bonusLoop.simps scoreOf_def computeScores_def sortByScore_def candidates_def
      setScore_def prefOr0_def elementAt_def panelOf_def boundingRect_def)

text \<open>
  Claim C1, amended. After the bonus loop a side that is not listed keeps its score; a
  listed side has gained at least 10000, and exactly \<open>(length - i) * 10000\<close> when the
  sequence has no duplicates and lists it at position \<open>i\<close>. Hence a listed side has a
  greater final score than an unlisted one whenever the unlisted side's score before the
  bonus exceeds the listed side's by less than 10000.
\<close>

theorem bonus_final_scores:
  "(p \<notin> set order \<longrightarrow>
      scoreOf p (bonusLoop order 0 (computeScores win anchor sz prefs))
        = scoreOf p (computeScores win anchor sz prefs))
   \<and> (p \<in> set order \<longrightarrow>
        (\<exists>a b. scoreOf p (computeScores win anchor sz prefs) = Some a
           \<and> scoreOf p (bonusLoop order 0 (computeScores win anchor sz prefs)) = Some b
           \<and> a + 10000 \<le> b))
   \<and> (distinct order \<and> i < length order \<longrightarrow>
        (\<exists>a. scoreOf (order ! i) (computeScores win anchor sz prefs) = Some a
           \<and> scoreOf (order ! i) (bonusLoop order 0 (computeScores win anchor sz prefs))
               = Some (a + real (length order - i) * 10000)))
   \<and> (p \<in> set order \<and> q \<notin> set order
        \<and> scoreOf p (computeScores win anchor sz prefs) = Some a
        \<and> scoreOf q (computeScores win anchor sz prefs) = Some b
        \<and> b < a + 10000 \<longrightarrow>
        (\<exists>a' b'. scoreOf p (bonusLoop order 0 (computeScores win anchor sz prefs)) = Some a'
           \<and> scoreOf q (bonusLoop order 0 (computeScores win anchor sz prefs)) = Some b'
           \<and> b' < a'))"
proof (intro conjI impI)
  let ?raw = "computeScores win anchor sz prefs"
  let ?final = "bonusLoop order 0 ?raw"
  show "scoreOf p ?final = scoreOf p ?raw" if "p \<notin> set order"
    using that by (simp add: scoreOf_bonusLoop bonusSum_unlisted option.map_ident)
  show "\<exists>a b. scoreOf p ?raw = Some a \<and> scoreOf p ?final = Some b \<and> a + 10000 \<le> b"
    if "p \<in> set order"
  proof -
    obtain a where a: "scoreOf p ?raw = Some a" using scoreOf_raw by blast
    have "scoreOf p ?final = Some (a + bonusSum order 0 p)"
      by (simp add: scoreOf_bonusLoop a)
    then show ?thesis using a bonusSum_listed[OF that] by simp
  qed
  show "\<exists>a. scoreOf (order ! i) ?raw = Some a
           \<and> scoreOf (order ! i) ?final = Some (a + real (length order - i) * 10000)"
    if "distinct order \<and> i < length order"
  proof -
    obtain a where a: "scoreOf (order ! i) ?raw = Some a" using scoreOf_raw by blast
    have "scoreOf (order ! i) ?final = Some (a + bonusSum order 0 (order ! i))"
      by (simp add: scoreOf_bonusLoop a)
    then show ?thesis using a that by (simp add: bonusSum_distinct)
  qed
  show "\<exists>a' b'. scoreOf p ?final = Some a' \<and> scoreOf q ?final = Some b' \<and> b' < a'"
    if h: "p \<in> set order \<and> q \<notin> set order \<and> scoreOf p ?raw = Some a \<and> scoreOf q ?raw = Some b
        \<and> b < a + 10000"
  proof -
    have "scoreOf p ?final = Some (a + bonusSum order 0 p)"
      using h by (simp add: scoreOf_bonusLoop)
    moreover have "scoreOf q ?final = Some b"
      using h by (simp add: scoreOf_bonusLoop bonusSum_unlisted)
    moreover have "b < a + bonusSum order 0 p"
      using h bonusSum_listed[of p order] by simp
    ultimately show ?thesis by simp
  qed
qed

theorem bonus_final_scores_witness:
  "scoreOf Bottom (computeScores \<lparr>innerWidth = 800, innerHeight = 600\<rparr> (elementAt 500 100 50 20)
        \<lparr>width = 120, height = 40\<rparr> Map.empty) = Some 45
   \<and> scoreOf Right (computeScores \<lparr>innerWidth = 800, innerHeight = 600\<rparr> (elementAt 500 100 50 20)
        \<lparr>width = 120, height = 40\<rparr> Map.empty) = Some 640
   \<and> scoreOf Bottom (bonusLoop [Bottom] 0 (computeScores \<lparr>innerWidth = 800, innerHeight = 600\<rparr>
        (elementAt 500 100 50 20) \<lparr>width = 120, height = 40\<rparr> Map.empty)) = Some 10045
   \<and> scoreOf Right (bonusLoop [Bottom] 0 (computeScores \<lparr>innerWidth = 800, innerHeight = 600\<rparr>
        (elementAt 500 100 50 20) \<lparr>width = 120, height = 40\<rparr> Map.empty)) = Some 640"
proof -
  let ?raw = "computeScores \<lparr>innerWidth = 800, innerHeight = 600\<rparr> (elementAt 500 100 50 20)
        \<lparr>width = 120, height = 40\<rparr> Map.empty"
  have a: "scoreOf Bottom ?raw = Some 45" and b: "scoreOf Right ?raw = Some 640"
    by (simp_all add: scenario_scores scoreOf_def)
  have o: "Bottom \<in> set [Bottom]" "Right \<notin> set [Bottom]" "distinct [Bottom] \<and> 0 < length [Bottom]"
    by simp_all
  note t = bonus_final_scores[of _ "[Bottom]" "\<lparr>innerWidth = 800, innerHeight = 600\<rparr>" "elementAt 500 100 50 20"
        "\<lparr>width = 120, height = 40\<rparr>" Map.empty 0]
  have "scoreOf Right (bonusLoop [Bottom] 0 ?raw) = scoreOf Right ?raw"
    using t[of Right] o by blast
  moreover have "\<exists>a. scoreOf ([Bottom] ! 0) ?raw = Some a
       \<and> scoreOf ([Bottom] ! 0) (bonusLoop [Bottom] 0 ?raw) = Some (a + real (length [Bottom] - 0) * 10000)"
    using t[of Bottom] o by blast
  ultimately show ?thesis using a b by simp
qed

subsection \<open>Totality of the selectors\<close>

text \<open>
  Claim C5. For every geometry, footprint and configuration, \<open>findBestPlacement\<close> and
  \<open>computeBest\<close> each return a side: neither ends in the TypeError of \<open>reduce\<close> on an
  empty array or of reading \<open>scores[0]\<close> of an empty list. Both are total functions of
  the model, their loops being recursions over finite lists.
\<close>

theorem selectors_total:
  "(\<exists>p. findBestPlacement win anchor popover preferred fallbacks = Inr p)
   \<and> (\<exists>q. computeBest win anchor pop plc prefs = Inr q)"
  using findBestPlacement_total[of win anchor popover preferred fallbacks]
    computeBest_raw_maximum[of win anchor pop plc prefs]
  by simp

end
